theory Spec2Isabelle
  imports Main "HOL-Library.Sublist"
begin

section \<open>Data frames\<close>

text \<open>
  The functions of \<^verbatim>\<open>code/utils.py\<close> work on pandas data frames. A frame is
  modelled by what these functions read and write: the row labels (\<^verbatim>\<open>df.index\<close>,
  integers), the column labels (\<^verbatim>\<open>df.columns\<close>) and the cells, row by row. A cell
  holds a string, a number, the missing marker, or a list of strings (what line 78 stores
  in the scratch column \<^verbatim>\<open>'temp'\<close>). Characters are code points below 256.
\<close>

datatype cell = is_Str: Str (the_Str: string) | Num (the_Num: int) | NaN | is_StrList: StrList "string list"

datatype error = KeyError | AttributeOrTypeError | TypeError | ValueError

record dataframe =
  index :: "int list"
  columns :: "string list"
  rows :: "cell list list"

text \<open>
  A frame as pandas builds it from a table with named columns: the labels are distinct,
  there is one label per row, and every row has one cell per column.
\<close>

definition wf_frame :: "dataframe \<Rightarrow> bool" where
  "wf_frame df \<longleftrightarrow>
     distinct (columns df) \<and> length (rows df) = length (index df) \<and>
     (\<forall>r \<in> set (rows df). length r = length (columns df))"

text \<open>
  Selection by label in a labelled sequence (a row of a frame, a \<^verbatim>\<open>Series\<close>):
  pandas returns every entry that carries the label, in order.
\<close>

definition select :: "string list \<Rightarrow> cell list \<Rightarrow> string \<Rightarrow> cell list" where
  "select ls vs k = map snd (filter (\<lambda>lv. fst lv = k) (zip ls vs))"

text \<open>\<^verbatim>\<open>row[k]\<close> where the label \<open>k\<close> is present once.\<close>

definition cell_at :: "string list \<Rightarrow> cell list \<Rightarrow> string \<Rightarrow> cell" where
  "cell_at ls vs k = hd (select ls vs k)"

text \<open>
  \<^verbatim>\<open>df[key] = vals\<close>: an existing column (every column with that label) is
  overwritten, a new one is appended on the right.
\<close>

definition setitem :: "dataframe \<Rightarrow> string \<Rightarrow> cell list \<Rightarrow> dataframe" where
  "setitem df key vals =
     (if key \<in> set (columns df)
      then df\<lparr>rows := map (\<lambda>(r, v). map (\<lambda>(l, x). if l = key then v else x) (zip (columns df) r))
                            (zip (rows df) vals)\<rparr>
      else df\<lparr>columns := columns df @ [key],
              rows := map (\<lambda>(r, v). r @ [v]) (zip (rows df) vals)\<rparr>)"

text \<open>
  \<^verbatim>\<open>df[[k1, ..., kn]]\<close>: a \<^verbatim>\<open>KeyError\<close> when a label is absent; otherwise the
  frame of the selected columns, in the order of the keys.
\<close>

definition getitems :: "dataframe \<Rightarrow> string list \<Rightarrow> error + dataframe" where
  "getitems df keys =
     (if \<forall>k \<in> set keys. k \<in> set (columns df)
      then Inr \<lparr>index = index df,
                columns = concat (map (\<lambda>k. filter (\<lambda>l. l = k) (columns df)) keys),
                rows = map (\<lambda>r. concat (map (select (columns df) r) keys)) (rows df)\<rparr>
      else Inl KeyError)"

text \<open>
  \<^verbatim>\<open>pd.DataFrame(data, columns=cols)\<close> on a list of rows: the rows get the labels
  \<open>0, 1, ...\<close>; a row that does not have one entry per column is a \<^verbatim>\<open>ValueError\<close>
  (an \<^verbatim>\<open>AssertionError\<close> in early versions of pandas; pandas pads short rows when
  another row is full, and the loop of line 84 only builds rows of one length).
\<close>

definition DataFrame :: "cell list list \<Rightarrow> string list \<Rightarrow> error + dataframe" where
  "DataFrame data cols =
     (if \<forall>r \<in> set data. length r = length cols
      then Inr \<lparr>index = map int [0..<length data], columns = cols, rows = data\<rparr>
      else Inl ValueError)"

section \<open>Strings\<close>

text \<open>\<^verbatim>\<open>str.isspace\<close>, \<^verbatim>\<open>str.lstrip()\<close> and \<^verbatim>\<open>str.lower()\<close> on code points below 256.\<close>

definition isspace :: "char \<Rightarrow> bool" where
  "isspace c \<longleftrightarrow> (of_char c :: nat) \<in> {9, 10, 11, 12, 13, 28, 29, 30, 31, 32, 133, 160}"

definition lower_char :: "char \<Rightarrow> char" where
  "lower_char c =
     (let n = (of_char c :: nat)
      in if (65 \<le> n \<and> n \<le> 90) \<or> (192 \<le> n \<and> n \<le> 222 \<and> n \<noteq> 215) then char_of (n + 32) else c)"

definition py_lstrip :: "string \<Rightarrow> string" where
  "py_lstrip a = dropWhile isspace a"

definition py_lower :: "string \<Rightarrow> string" where
  "py_lower a = map lower_char a"

text \<open>
  \<^verbatim>\<open>s.split(sep)\<close> for a non-empty literal separator: the text is scanned from the
  left, every occurrence of the separator ends a piece, the scan resumes behind it.
  pandas' \<^verbatim>\<open>Series.str.split\<close> applies it to every cell when the separator is one
  character, and compiles a longer separator as a regular expression, which splits the
  same way when the separator has no metacharacter (as \<^verbatim>\<open>';\n'\<close> and \<^verbatim>\<open>', '\<close>).
  It is not the split of line 78 for any other separator: \<^verbatim>\<open>' | '\<close> as a pattern is
  an alternation. The functions below take the splitting routine as a parameter.
\<close>

function literal_split :: "string \<Rightarrow> string \<Rightarrow> string list" where
  "literal_split sep [] = [[]]"
| "literal_split sep (c # cs) =
     (if sep \<noteq> [] \<and> prefix sep (c # cs) then [] # literal_split sep (drop (length sep) (c # cs))
      else (case literal_split sep cs of p # ps \<Rightarrow> (c # p) # ps | [] \<Rightarrow> [[c]]))"
  by pat_completeness auto
termination
  by (relation "measure (\<lambda>(sep, s). length s)") (auto simp: neq_Nil_conv)

text \<open>
  The separators at which pandas splits literally: one character (the routine then
  calls \<^verbatim>\<open>s.split(sep)\<close>), or several characters none of which has a meaning in a
  regular expression (the compiled pattern then matches the separator itself and nothing
  else).
\<close>

definition regex_special :: string where
  "regex_special = ''.^$*+?{}[]|()'' @ [CHR 0x5C]"

definition literal_sep :: "string \<Rightarrow> bool" where
  "literal_sep sep \<longleftrightarrow>
     length sep = 1 \<or> (sep \<noteq> [] \<and> list_all (\<lambda>c. c \<notin> set regex_special) sep)"

section \<open>The functions of utils.py\<close>

text \<open>\<^verbatim>\<open>lstrip(list_of_strs, lower)\<close>, line 15.\<close>

definition lstrip :: "string list \<Rightarrow> bool \<Rightarrow> string list" where
  "lstrip list_of_strs lower =
     map (\<lambda>a. if lower then py_lower (py_lstrip a) else py_lstrip a) list_of_strs"

text \<open>
  Line 78, right-hand side: \<^verbatim>\<open>df[col].str.split(sep).apply(lstrip, lower=lower)\<close>.
  \<^verbatim>\<open>df[col]\<close> raises \<^verbatim>\<open>KeyError\<close> when the column is absent. The \<^verbatim>\<open>.str\<close>
  accessor exists on one column of text only; on a cell that is not a string
  \<^verbatim>\<open>split\<close> gives the missing marker, which \<^verbatim>\<open>lstrip\<close> cannot iterate. Which of
  \<^verbatim>\<open>AttributeError\<close> and \<^verbatim>\<open>TypeError\<close> is raised depends on the column's storage
  type, which the model does not hold: both are \<open>AttributeOrTypeError\<close>. The splitting
  routine of pandas is the parameter \<open>str_split\<close>.
\<close>

definition temp_column ::
  "(string \<Rightarrow> string \<Rightarrow> string list) \<Rightarrow> dataframe \<Rightarrow> string \<Rightarrow> string \<Rightarrow> bool \<Rightarrow> error + cell list" where
  "temp_column str_split df col sep lower =
     (if col \<notin> set (columns df) then Inl KeyError
      else if count_list (columns df) col \<noteq> 1 then Inl AttributeOrTypeError
      else let s = map (\<lambda>r. cell_at (columns df) r col) (rows df)
           in if list_all is_Str s
              then Inr (map (\<lambda>c. StrList (lstrip (str_split sep (the_Str c)) lower)) s)
              else Inl AttributeOrTypeError)"

text \<open>\<^verbatim>\<open>ref_col\<close> is a column name or a list of column names (lines 80 and 81).\<close>

datatype ref_arg = Name string | Names "string list"

fun ref_list :: "ref_arg \<Rightarrow> string list" where
  "ref_list (Names cs) = cs"
| "ref_list (Name c) = [c]"

text \<open>
  \<^verbatim>\<open>for m in items['temp']\<close>: when the label is present once, \<^verbatim>\<open>items['temp']\<close> is
  the cell and the loop runs over its elements; when it is present several times, it is
  the sequence of the cells with that label and the loop runs over them.
\<close>

fun iter_cell :: "cell \<Rightarrow> error + cell list" where
  "iter_cell (StrList ps) = Inr (map Str ps)"
| "iter_cell (Str s) = Inr (map (\<lambda>c. Str [c]) s)"
| "iter_cell (Num n) = Inl TypeError"
| "iter_cell NaN = Inl TypeError"

fun iter_item :: "cell list \<Rightarrow> error + cell list" where
  "iter_item [] = Inl KeyError"
| "iter_item [c] = iter_cell c"
| "iter_item ms = Inr ms"

text \<open>
  The loop of lines 83 to 86 over \<^verbatim>\<open>iterrows()\<close>: \<open>labels\<close> are the columns of the
  selected frame, each item is a row label with the row's cells, \<open>value_per_row\<close> is
  the list built so far.
\<close>

fun build_rows ::
  "string list \<Rightarrow> string list \<Rightarrow> (int \<times> cell list) list \<Rightarrow> cell list list \<Rightarrow> error + cell list list" where
  "build_rows labels ref_col [] value_per_row = Inr value_per_row"
| "build_rows labels ref_col ((i, items) # rest) value_per_row =
     (case iter_item (select labels items ''temp'') of
        Inl e \<Rightarrow> Inl e
      | Inr ms \<Rightarrow>
          build_rows labels ref_col rest
            (value_per_row @ map (\<lambda>m. Num i # concat (map (select labels items) ref_col) @ [m]) ms))"

text \<open>
  \<^verbatim>\<open>split_column_with_multiple_entries(df, col, ref_col, sep, lower)\<close>, line 54. The
  result is what the call returns or raises, together with the caller's frame after the
  call: line 78 assigns to \<^verbatim>\<open>df['temp']\<close>.
\<close>

definition split_column_with_multiple_entries ::
  "(string \<Rightarrow> string \<Rightarrow> string list) \<Rightarrow> dataframe \<Rightarrow> string \<Rightarrow> ref_arg \<Rightarrow> string \<Rightarrow> bool
     \<Rightarrow> (error + dataframe) \<times> dataframe" where
  "split_column_with_multiple_entries str_split df col ref_col sep lower =
     (case temp_column str_split df col sep lower of
        Inl e \<Rightarrow> (Inl e, df)
      | Inr temp \<Rightarrow>
          let df1 = setitem df ''temp'' temp;
              refs = ref_list ref_col
          in (case getitems df1 (refs @ [''temp'']) of
                Inl e \<Rightarrow> (Inl e, df1)
              | Inr sub \<Rightarrow>
                  (case build_rows (columns sub) refs (zip (index sub) (rows sub)) [] of
                     Inl e \<Rightarrow> (Inl e, df1)
                   | Inr value_per_row \<Rightarrow>
                       (DataFrame value_per_row (''paper nb'' # refs @ [col]), df1))))"

text \<open>
  \<^verbatim>\<open>extract_main_domains(df)\<close>, line 91. \<^verbatim>\<open>row.isin(main_domains)\<close> marks the cells
  that are one of the seven names; a number or a missing value is not, and a list cannot
  be hashed. \<^verbatim>\<open>row[mask].values[0]\<close> is the first marked cell. The list comprehension
  stops at the first row that raises; the column is assigned after it, so a call that
  raises leaves the frame as it was. The frame returned is the caller's frame.
\<close>

definition main_domains :: "string list" where
  "main_domains = [''Epilepsy'', ''Sleep'', ''BCI'', ''Affective'', ''Cognitive'',
                   ''Improvement of processing tools'', ''Generation of data'']"

definition domain_columns :: "string list" where
  "domain_columns = [''Domain 1'', ''Domain 2'', ''Domain 3'', ''Domain 4'']"

definition isin :: "cell \<Rightarrow> string list \<Rightarrow> bool" where
  "isin c vals \<longleftrightarrow> is_Str c \<and> the_Str c \<in> set vals"

definition main_domain_of :: "cell list \<Rightarrow> error + cell" where
  "main_domain_of row =
     (if list_ex is_StrList row then Inl TypeError
      else if list_ex (\<lambda>c. isin c main_domains) row
           then Inr (hd (filter (\<lambda>c. isin c main_domains) row))
           else Inr (Str ''Others''))"

fun collect :: "('a \<Rightarrow> error + 'b) \<Rightarrow> 'a list \<Rightarrow> error + 'b list" where
  "collect f [] = Inr []"
| "collect f (x # xs) =
     (case f x of
        Inl e \<Rightarrow> Inl e
      | Inr y \<Rightarrow> (case collect f xs of Inl e \<Rightarrow> Inl e | Inr ys \<Rightarrow> Inr (y # ys)))"

definition extract_main_domains :: "dataframe \<Rightarrow> error + dataframe" where
  "extract_main_domains df =
     (case getitems df domain_columns of
        Inl e \<Rightarrow> Inl e
      | Inr domains_df \<Rightarrow>
          (case collect main_domain_of (rows domains_df) of
             Inl e \<Rightarrow> Inl e
           | Inr vals \<Rightarrow> Inr (setitem df ''Main domain'' vals)))"

section \<open>What the claims speak about\<close>

text \<open>
  The calls on which the splitter returns a table: a well-formed frame whose target
  column holds text in every row, and identifier columns that are distinct columns of
  the frame, none of them the scratch column.
\<close>

definition valid_call :: "dataframe \<Rightarrow> string \<Rightarrow> string list \<Rightarrow> bool" where
  "valid_call df col refs \<longleftrightarrow>
     wf_frame df \<and> col \<in> set (columns df) \<and>
     list_all (\<lambda>r. is_Str (cell_at (columns df) r col)) (rows df) \<and>
     list_all (\<lambda>k. k \<in> set (columns df)) refs \<and> distinct refs \<and> ''temp'' \<notin> set refs"

text \<open>The substrings of a row's target cell, and what is done to each of them.\<close>

definition pieces ::
  "(string \<Rightarrow> string \<Rightarrow> string list) \<Rightarrow> dataframe \<Rightarrow> string \<Rightarrow> string \<Rightarrow> cell list \<Rightarrow> string list" where
  "pieces str_split df col sep r = str_split sep (the_Str (cell_at (columns df) r col))"

definition processed :: "bool \<Rightarrow> string \<Rightarrow> string" where
  "processed lower a = (if lower then py_lower (py_lstrip a) else py_lstrip a)"

text \<open>
  The expanded table as the specification describes it: for every input row, in input
  order, one output row per substring, in split order, made of the row's label, its
  identifier cells and the processed substring.
\<close>

definition expand_row ::
  "(string \<Rightarrow> string \<Rightarrow> string list) \<Rightarrow> dataframe \<Rightarrow> string \<Rightarrow> string list \<Rightarrow> string \<Rightarrow> bool
     \<Rightarrow> int \<times> cell list \<Rightarrow> cell list list" where
  "expand_row str_split df col refs sep lower ir =
     map (\<lambda>p. Num (fst ir) # map (cell_at (columns df) (snd ir)) refs @ [Str (processed lower p)])
       (pieces str_split df col sep (snd ir))"

definition expanded ::
  "(string \<Rightarrow> string \<Rightarrow> string list) \<Rightarrow> dataframe \<Rightarrow> string \<Rightarrow> string list \<Rightarrow> string \<Rightarrow> bool
     \<Rightarrow> cell list list" where
  "expanded str_split df col refs sep lower =
     concat (map (expand_row str_split df col refs sep lower) (zip (index df) (rows df)))"

definition temp_cells ::
  "(string \<Rightarrow> string \<Rightarrow> string list) \<Rightarrow> dataframe \<Rightarrow> string \<Rightarrow> string \<Rightarrow> bool \<Rightarrow> cell list" where
  "temp_cells str_split df col sep lower =
     map (\<lambda>r. StrList (map (processed lower) (pieces str_split df col sep r))) (rows df)"

text \<open>The labels and a row of a frame after \<^verbatim>\<open>df[key] = ...\<close>.\<close>

definition add_label :: "string \<Rightarrow> string list \<Rightarrow> string list" where
  "add_label key ls = (if key \<in> set ls then ls else ls @ [key])"

definition set_cell :: "string \<Rightarrow> string list \<Rightarrow> cell list \<Rightarrow> cell \<Rightarrow> cell list" where
  "set_cell key ls r v =
     (if key \<in> set ls then map (\<lambda>(l, x). if l = key then v else x) (zip ls r) else r @ [v])"

text \<open>The row labels of an expanded table (its column \<^verbatim>\<open>'paper nb'\<close>), and its values.\<close>

definition paper_nbs :: "dataframe \<Rightarrow> int list" where
  "paper_nbs out = map (\<lambda>r. the_Num (hd r)) (rows out)"

definition identifiers :: "string list \<Rightarrow> cell list \<Rightarrow> cell list" where
  "identifiers refs orow = take (length refs) (tl orow)"

definition values_of :: "dataframe \<Rightarrow> cell list" where
  "values_of out = map last (rows out)"

text \<open>
  A separator has a border when a proper, non-empty prefix of it is also its suffix:
  two occurrences of such a separator can overlap.
\<close>

definition bordered :: "string \<Rightarrow> bool" where
  "bordered sep \<longleftrightarrow> list_ex (\<lambda>k. take k sep = drop (length sep - k) sep) [1..<length sep]"

text \<open>The default separator of line 54, and frames to run the functions on.\<close>

definition default_sep :: string where
  "default_sep = [CHR '';'', CHR 0x0A]"

definition papers :: dataframe where
  "papers = \<lparr>index = [0, 1], columns = [''Citation'', ''Domain''],
     rows = [[Str ''A1'', Str (''Sleep'' @ default_sep @ '' BCI'')], [Str ''B2'', Str ''Epilepsy'']]\<rparr>"

definition resorted :: dataframe where
  "resorted = \<lparr>index = [1, 0], columns = [''Citation'', ''Domain''],
     rows = [[Str ''B2'', Str ''Epilepsy''], [Str ''A1'', Str ''Sleep'']]\<rparr>"


text \<open>
  The main domain of a row as the claim words it: the four domain cells are looked at in
  the order of the columns, the first that is one of the seven names is taken, and
  \<^verbatim>\<open>'Others'\<close> when none is.
\<close>

definition first_main_domain :: "cell \<Rightarrow> cell \<Rightarrow> cell \<Rightarrow> cell \<Rightarrow> cell" where
  "first_main_domain d1 d2 d3 d4 =
     (if isin d1 main_domains then d1
      else if isin d2 main_domains then d2
      else if isin d3 main_domains then d3
      else if isin d4 main_domains then d4
      else Str ''Others'')"

text \<open>
  The frames on which \<^verbatim>\<open>extract_main_domains\<close> returns: well-formed, with the four
  domain columns, none of whose cells is a list.
\<close>

definition valid_domains :: "dataframe \<Rightarrow> bool" where
  "valid_domains df \<longleftrightarrow>
     wf_frame df \<and> list_all (\<lambda>k. k \<in> set (columns df)) domain_columns \<and>
     list_all (\<lambda>r. list_all (\<lambda>k. \<not> is_StrList (cell_at (columns df) r k)) domain_columns) (rows df)"

definition surveyed :: dataframe where
  "surveyed = \<lparr>index = [0, 1, 2],
     columns = [''Citation'', ''Domain 1'', ''Domain 2'', ''Domain 3'', ''Domain 4''],
     rows = [[Str ''A1'', Str ''Sleep'', Str ''Staging'', NaN, NaN],
             [Str ''B2'', Str ''Clinical'', Str ''BCI'', Str ''Epilepsy'', NaN],
             [Str ''C3'', Str ''Clinical'', NaN, NaN, NaN]]\<rparr>"

definition ragged :: dataframe where
  "ragged = \<lparr>index = [0], columns = [''Citation'', ''Domain''],
     rows = [[Str ''A1'', Str (default_sep @ ''x'' @ default_sep @ default_sep @ ''y'' @ default_sep)]]\<rparr>"

section \<open>Selection by label\<close>

lemma select_Nil [simp]: "select [] vs k = []" "select ls [] k = []"
  by (simp_all add: select_def)

lemma select_Cons [simp]:
  "select (l # ls) (v # vs) k = (if l = k then v # select ls vs k else select ls vs k)"
  by (simp add: select_def)

lemma select_absent: "k \<notin> set ls \<Longrightarrow> select ls vs k = []"
  by (induction ls vs rule: list_induct2') auto

lemma select_append:
  "length ls = length vs \<Longrightarrow> select (ls @ ls') (vs @ vs') k = select ls vs k @ select ls' vs' k"
  by (induction ls vs rule: list_induct2) auto

lemma select_once:
  "distinct ls \<Longrightarrow> length vs = length ls \<Longrightarrow> k \<in> set ls \<Longrightarrow> select ls vs k = [cell_at ls vs k]"
proof (induction ls vs rule: list_induct2')
  case (4 l ls v vs)
  then show ?case by (auto simp: cell_at_def select_absent)
qed auto

lemma select_overwrite:
  "select ls (map (\<lambda>(l, x). if l = key then v else x) (zip ls vs)) k =
     (if k = key then map (\<lambda>x. v) (select ls vs k) else select ls vs k)"
  by (induction ls vs rule: list_induct2') auto

lemma select_map_keys:
  "distinct ks \<Longrightarrow> k \<in> set ks \<Longrightarrow> select ks (map f ks) k = [f k]"
  by (induction ks) (auto simp: select_absent)

lemma filter_eq_distinct:
  "distinct ls \<Longrightarrow> k \<in> set ls \<Longrightarrow> filter (\<lambda>l. l = k) ls = [k]"
  by (induction ls) (auto simp: filter_empty_conv)

lemma count_list_distinct:
  "distinct ls \<Longrightarrow> k \<in> set ls \<Longrightarrow> count_list ls k = 1"
  by (induction ls) auto

lemma concat_filter_keys:
  "distinct ls \<Longrightarrow> set ks \<subseteq> set ls \<Longrightarrow> concat (map (\<lambda>k. filter (\<lambda>l. l = k) ls) ks) = ks"
  by (induction ks) (auto simp: filter_eq_distinct)

lemma concat_select_once:
  assumes "distinct ls" "length r = length ls"
  shows "set ks \<subseteq> set ls \<Longrightarrow> concat (map (select ls r) ks) = map (cell_at ls r) ks"
  using assms by (induction ks) (simp_all add: select_once)

section \<open>Assignment to a column\<close>

lemma zip_map_same: "map (\<lambda>(r, v). F r v) (zip xs (map g xs)) = map (\<lambda>r. F r (g r)) xs"
  by (induction xs) auto

lemma zip_map_right: "zip xs (map h ys) = map (\<lambda>ir. (fst ir, h (snd ir))) (zip xs ys)"
  by (simp add: zip_map2 case_prod_unfold)

lemma setitem_map:
  "setitem df key (map g (rows df)) =
     df\<lparr>columns := add_label key (columns df),
        rows := map (\<lambda>r. set_cell key (columns df) r (g r)) (rows df)\<rparr>"
  by (simp add: setitem_def add_label_def set_cell_def zip_map_same)

lemma select_set_cell_other:
  "length r = length ls \<Longrightarrow> k \<noteq> key \<Longrightarrow>
     select (add_label key ls) (set_cell key ls r v) k = select ls r k"
  by (simp add: add_label_def set_cell_def select_overwrite select_append)

lemma select_set_cell:
  assumes "distinct ls" "length r = length ls"
  shows "select (add_label key ls) (set_cell key ls r v) key = [v]"
proof (cases "key \<in> set ls")
  case True
  with assms have "select ls r key = [cell_at ls r key]"
    by (simp add: select_once)
  with True show ?thesis
    by (simp add: add_label_def set_cell_def select_overwrite)
next
  case False
  with assms show ?thesis
    by (simp add: add_label_def set_cell_def select_append select_absent)
qed

lemma cell_at_set_cell_other:
  "length r = length ls \<Longrightarrow> k \<noteq> key \<Longrightarrow>
     cell_at (add_label key ls) (set_cell key ls r v) k = cell_at ls r k"
  by (simp add: cell_at_def select_set_cell_other)

lemma cell_at_set_cell:
  "distinct ls \<Longrightarrow> length r = length ls \<Longrightarrow>
     cell_at (add_label key ls) (set_cell key ls r v) key = v"
  by (simp add: cell_at_def select_set_cell)

lemma distinct_add_label: "distinct ls \<Longrightarrow> distinct (add_label key ls)"
  by (simp add: add_label_def)

lemma set_add_label: "set (add_label key ls) = insert key (set ls)"
  by (auto simp: add_label_def)

lemma length_set_cell:
  "length r = length ls \<Longrightarrow> length (set_cell key ls r v) = length (add_label key ls)"
  by (simp add: set_cell_def add_label_def)

lemma concat_select_set_cell:
  assumes "distinct ls" "length r = length ls"
  shows "set ks \<subseteq> set ls \<Longrightarrow> key \<notin> set ks \<Longrightarrow>
     concat (map (select (add_label key ls) (set_cell key ls r v)) ks) = map (cell_at ls r) ks"
proof (induction ks)
  case Nil
  show ?case by simp
next
  case (Cons k ks)
  then have "k \<noteq> key" "k \<in> set ls" by auto
  with assms have "select (add_label key ls) (set_cell key ls r v) k = [cell_at ls r k]"
    by (simp add: select_set_cell_other select_once)
  with Cons show ?case by simp
qed

section \<open>The splitter on a valid call\<close>

lemma lstrip_processed: "lstrip ps lower = map (processed lower) ps"
  by (simp add: lstrip_def processed_def)

lemma temp_column_valid:
  assumes "valid_call df col refs"
  shows "temp_column str_split df col sep lower = Inr (temp_cells str_split df col sep lower)"
proof -
  from assms have d: "distinct (columns df)" and c: "col \<in> set (columns df)"
    and t: "list_all (\<lambda>r. is_Str (cell_at (columns df) r col)) (rows df)"
    by (simp_all add: valid_call_def wf_frame_def)
  have "count_list (columns df) col = 1"
    using d c by (rule count_list_distinct)
  moreover have "list_all is_Str (map (\<lambda>r. cell_at (columns df) r col) (rows df))"
    using t by (simp add: list_all_iff)
  ultimately show ?thesis
    using c by (simp add: temp_column_def temp_cells_def pieces_def lstrip_processed)
qed

lemma select_item_key:
  "distinct refs \<Longrightarrow> ''temp'' \<notin> set refs \<Longrightarrow> k \<in> set refs \<Longrightarrow>
     select (refs @ [''temp'']) (map f refs @ [t]) k = [f k]"
  by (auto simp: select_append select_map_keys)

lemma select_item_temp:
  "''temp'' \<notin> set refs \<Longrightarrow> select (refs @ [''temp'']) (map f refs @ [t]) ''temp'' = [t]"
  by (simp add: select_append select_absent)

lemma concat_select_item:
  assumes "distinct refs" "''temp'' \<notin> set refs"
  shows "set ks \<subseteq> set refs \<Longrightarrow>
     concat (map (select (refs @ [''temp'']) (map f refs @ [t])) ks) = map f ks"
  using assms by (induction ks) (simp_all add: select_item_key)

lemma build_rows_items:
  assumes "distinct refs" "''temp'' \<notin> set refs"
  shows "build_rows (refs @ [''temp'']) refs
           (map (\<lambda>ir. (fst ir, map (f (snd ir)) refs @ [StrList (ps (snd ir))])) its) acc =
         Inr (acc @ concat (map (\<lambda>ir. map (\<lambda>p. Num (fst ir) # map (f (snd ir)) refs @ [Str p]) (ps (snd ir))) its))"
proof (induction its arbitrary: acc)
  case Nil
  show ?case by simp
next
  case (Cons ir its)
  show ?case
    using assms by (simp add: Cons.IH select_item_temp concat_select_item comp_def)
qed

lemma split_column_valid:
  assumes v: "valid_call df col (ref_list ref_col)"
  shows "split_column_with_multiple_entries str_split df col ref_col sep lower =
    (Inr \<lparr>index = map int [0..<length (expanded str_split df col (ref_list ref_col) sep lower)],
          columns = ''paper nb'' # ref_list ref_col @ [col],
          rows = expanded str_split df col (ref_list ref_col) sep lower\<rparr>,
     setitem df ''temp'' (temp_cells str_split df col sep lower))"
proof -
  define refs where "refs = ref_list ref_col"
  define g where "g = (\<lambda>r. StrList (map (processed lower) (pieces str_split df col sep r)))"
  define df1 where "df1 = setitem df ''temp'' (temp_cells str_split df col sep lower)"
  from v have d: "distinct (columns df)"
    and len: "\<And>r. r \<in> set (rows df) \<Longrightarrow> length r = length (columns df)"
    and rs: "set refs \<subseteq> set (columns df)" and dr: "distinct refs" and nt: "''temp'' \<notin> set refs"
    by (auto simp: valid_call_def wf_frame_def refs_def list_all_iff)
  have tc: "temp_column str_split df col sep lower = Inr (temp_cells str_split df col sep lower)"
    using v by (rule temp_column_valid)
  have df1: "df1 = df\<lparr>columns := add_label ''temp'' (columns df),
        rows := map (\<lambda>r. set_cell ''temp'' (columns df) r (g r)) (rows df)\<rparr>"
    unfolding df1_def temp_cells_def g_def by (rule setitem_map)
  have keys: "\<forall>k \<in> set (refs @ [''temp'']). k \<in> set (columns df1)"
    using rs by (auto simp: df1 set_add_label)
  have cols: "concat (map (\<lambda>k. filter (\<lambda>l. l = k) (columns df1)) (refs @ [''temp''])) = refs @ [''temp'']"
    using keys d by (intro concat_filter_keys) (auto simp: df1 distinct_add_label)
  have subrows: "map (\<lambda>r. concat (map (select (columns df1) r) (refs @ [''temp'']))) (rows df1) =
      map (\<lambda>r. map (cell_at (columns df) r) refs @ [g r]) (rows df)"
    using d len rs nt by (simp add: df1 concat_select_set_cell select_set_cell)
  have sub: "getitems df1 (refs @ [''temp'']) =
      Inr \<lparr>index = index df, columns = refs @ [''temp''],
           rows = map (\<lambda>r. map (cell_at (columns df) r) refs @ [g r]) (rows df)\<rparr>"
    unfolding getitems_def using keys cols subrows by (simp add: df1)
  have b: "build_rows (refs @ [''temp'']) refs
       (zip (index df) (map (\<lambda>r. map (cell_at (columns df) r) refs @ [g r]) (rows df))) [] =
     Inr (expanded str_split df col refs sep lower)"
    unfolding zip_map_right g_def
    using build_rows_items [OF dr nt, of "cell_at (columns df)"
        "\<lambda>r. map (processed lower) (pieces str_split df col sep r)" "zip (index df) (rows df)" "[]"]
    by (simp add: expanded_def expand_row_def [abs_def] comp_def)
  have l: "\<forall>r \<in> set (expanded str_split df col refs sep lower). length r = length (''paper nb'' # refs @ [col])"
    by (auto simp: expanded_def expand_row_def)
  show ?thesis
    unfolding split_column_with_multiple_entries_def
    using tc sub b l by (simp add: Let_def DataFrame_def df1_def [symmetric] refs_def [symmetric])
qed

lemma papers_valid: "valid_call papers ''Domain'' [''Citation'']"
  by (simp add: valid_call_def wf_frame_def papers_def cell_at_def default_sep_def)

lemma length_expanded:
  assumes "length (index df) = length (rows df)"
  shows "length (expanded str_split df col refs sep lower) =
     sum_list (map (\<lambda>r. length (pieces str_split df col sep r)) (rows df))"
proof -
  have "length (expanded str_split df col refs sep lower) =
      sum_list (map (\<lambda>r. length (pieces str_split df col sep r)) (map snd (zip (index df) (rows df))))"
    by (simp add: expanded_def expand_row_def length_concat comp_def)
  with assms show ?thesis by (simp add: map_snd_zip)
qed

section \<open>The claims about the splitter\<close>

text \<open>
  C1. On every valid call the splitter returns a table, and the number of its rows is the
  sum, over the input rows, of the number of substrings that splitting the row's target
  cell on the separator gives. This holds for any splitting routine.
\<close>

theorem expand_row_count:
  assumes "valid_call df col (ref_list ref_col)"
  shows "\<exists>out. fst (split_column_with_multiple_entries str_split df col ref_col sep lower) = Inr out \<and>
     length (rows out) =
       sum_list (map (\<lambda>r. length (str_split sep (the_Str (cell_at (columns df) r col)))) (rows df))"
proof -
  from assms have "length (index df) = length (rows df)"
    by (simp add: valid_call_def wf_frame_def)
  then show ?thesis
    by (simp add: split_column_valid [OF assms] length_expanded pieces_def)
qed

theorem expand_row_count_witness:
  "\<exists>out. fst (split_column_with_multiple_entries literal_split papers ''Domain'' (Name ''Citation'')
       default_sep True) = Inr out \<and> length (rows out) = 3"
proof -
  have v: "valid_call papers ''Domain'' (ref_list (Name ''Citation''))"
    by (simp add: papers_valid)
  have "sum_list (map (\<lambda>r. length (literal_split default_sep (the_Str (cell_at (columns papers) r ''Domain''))))
          (rows papers)) = 3"
    by (simp add: papers_def cell_at_def default_sep_def)
  with expand_row_count [OF v, of literal_split default_sep True] show ?thesis
    by simp
qed

text \<open>
  C9. A single column name as \<^verbatim>\<open>ref_col\<close> gives the same result, and leaves the same
  frame, as the list that holds only that name.
\<close>

theorem single_name_as_list:
  "split_column_with_multiple_entries str_split df col (Name c) sep lower =
   split_column_with_multiple_entries str_split df col (Names [c]) sep lower"
  unfolding split_column_with_multiple_entries_def ref_list.simps by (rule refl)

theorem single_name_as_list_witness:
  "split_column_with_multiple_entries literal_split papers ''Domain'' (Name ''Citation'') default_sep True =
   split_column_with_multiple_entries literal_split papers ''Domain'' (Names [''Citation'']) default_sep True"
  by (rule single_name_as_list)

lemma resorted_valid: "valid_call resorted ''Domain'' [''Citation'']"
  by (simp add: valid_call_def wf_frame_def resorted_def cell_at_def)

lemma hd_expand_row:
  "map (\<lambda>r. the_Num (hd r)) (expand_row str_split df col refs sep lower ir) =
     replicate (length (pieces str_split df col sep (snd ir))) (fst ir)"
  by (simp add: expand_row_def comp_def map_replicate_const)

lemma paper_nbs_expanded:
  "map (\<lambda>r. the_Num (hd r)) (expanded str_split df col refs sep lower) =
     concat (map (\<lambda>ir. replicate (length (pieces str_split df col sep (snd ir))) (fst ir))
       (zip (index df) (rows df)))"
  by (simp add: expanded_def map_concat comp_def hd_expand_row)

lemma sorted_concat_replicate:
  "sorted (map fst zs) \<Longrightarrow> sorted (concat (map (\<lambda>ir. replicate (n ir) (fst ir)) zs))"
  by (induction zs) (auto simp: sorted_append)

lemma expanded_row_origin:
  assumes "orow \<in> set (expanded str_split df col refs sep lower)"
  shows "\<exists>j < length (rows df). j < length (index df) \<and> hd orow = Num (index df ! j) \<and>
           identifiers refs orow = map (cell_at (columns df) (rows df ! j)) refs"
proof -
  from assms obtain ir where ir: "ir \<in> set (zip (index df) (rows df))"
    and o: "orow \<in> set (expand_row str_split df col refs sep lower ir)"
    by (auto simp: expanded_def)
  from ir obtain j where j: "j < length (index df)" "j < length (rows df)"
      "ir = (index df ! j, rows df ! j)"
    by (auto simp: in_set_zip)
  from o have "hd orow = Num (fst ir)" "identifiers refs orow = map (cell_at (columns df) (snd ir)) refs"
    by (auto simp: expand_row_def identifiers_def)
  with j show ?thesis by auto
qed

lemma last_expand_row:
  "map last (expand_row str_split df col refs sep lower ir) =
     map (\<lambda>p. Str (processed lower p)) (pieces str_split df col sep (snd ir))"
  by (simp add: expand_row_def)

lemma values_expanded:
  assumes "length (index df) = length (rows df)"
  shows "map last (expanded str_split df col refs sep lower) =
     concat (map (\<lambda>r. map (\<lambda>p. Str (processed lower p)) (pieces str_split df col sep r)) (rows df))"
proof -
  have "map last (expanded str_split df col refs sep lower) =
      concat (map (\<lambda>r. map (\<lambda>p. Str (processed lower p)) (pieces str_split df col sep r))
        (map snd (zip (index df) (rows df))))"
    by (simp add: expanded_def map_concat comp_def last_expand_row)
  with assms show ?thesis by (simp add: map_snd_zip)
qed

lemma py_lstrip_suffix: "takeWhile isspace a @ py_lstrip a = a"
  by (simp add: py_lstrip_def)

lemma py_lstrip_spaces: "list_all isspace (takeWhile isspace a)"
  by (induction a) auto

lemma py_lstrip_head: "py_lstrip a \<noteq> [] \<Longrightarrow> \<not> isspace (hd (py_lstrip a))"
  unfolding py_lstrip_def by (rule hd_dropWhile)


lemma papers_expanded:
  "expanded literal_split papers ''Domain'' [''Citation''] default_sep True =
     [[Num 0, Str ''A1'', Str ''sleep''], [Num 0, Str ''A1'', Str ''bci''],
      [Num 1, Str ''B2'', Str ''epilepsy'']]"
  by code_simp

lemma papers_expanded_as_is:
  "expanded literal_split papers ''Domain'' [''Citation''] default_sep False =
     [[Num 0, Str ''A1'', Str ''Sleep''], [Num 0, Str ''A1'', Str ''BCI''],
      [Num 1, Str ''B2'', Str ''Epilepsy'']]"
  by code_simp

text \<open>
  C3, as the code has it. On every valid call the output is the concatenation, in input
  row order, of one group per input row, each group in split order: nothing is reordered,
  sorted or dropped. The row labels of the output are the labels of the input rows, each
  repeated once per substring. They are the labels pandas gave the rows
  (\<^verbatim>\<open>iterrows\<close> yields \<^verbatim>\<open>df.index\<close>), so they are non-decreasing when the labels
  of the input frame are, as with the default labels \<open>0, 1, ...\<close>; a frame whose rows
  were reordered keeps its labels, and the output follows them.
\<close>

theorem order_preserved:
  assumes "valid_call df col (ref_list ref_col)"
  shows "\<exists>out. fst (split_column_with_multiple_entries str_split df col ref_col sep lower) = Inr out \<and>
     rows out = concat (map (expand_row str_split df col (ref_list ref_col) sep lower)
                          (zip (index df) (rows df))) \<and>
     paper_nbs out = concat (map (\<lambda>ir. replicate (length (str_split sep (the_Str (cell_at (columns df) (snd ir) col)))) (fst ir))
                          (zip (index df) (rows df))) \<and>
     (sorted (index df) \<longrightarrow> sorted (paper_nbs out))"
proof -
  let ?zs = "zip (index df) (rows df)"
  let ?n = "\<lambda>ir. length (str_split sep (the_Str (cell_at (columns df) (snd ir) col)))"
  from assms have "length (index df) = length (rows df)"
    by (simp add: valid_call_def wf_frame_def)
  then have "map fst ?zs = index df"
    by (simp add: map_fst_zip)
  then have "sorted (index df) \<Longrightarrow> sorted (concat (map (\<lambda>ir. replicate (?n ir) (fst ir)) ?zs))"
    using sorted_concat_replicate [of ?zs ?n] by simp
  then show ?thesis
    by (simp add: split_column_valid [OF assms] paper_nbs_def paper_nbs_expanded pieces_def)
      (simp add: expanded_def)
qed

theorem order_preserved_witness:
  "\<exists>out. fst (split_column_with_multiple_entries literal_split papers ''Domain'' (Name ''Citation'')
       default_sep True) = Inr out \<and> paper_nbs out = [0, 0, 1] \<and> sorted (paper_nbs out)"
proof -
  have v: "valid_call papers ''Domain'' (ref_list (Name ''Citation''))"
    by (simp add: papers_valid)
  have s: "sorted (index papers)"
    by (simp add: papers_def)
  have "concat (map (\<lambda>ir. replicate (length (literal_split default_sep (the_Str (cell_at (columns papers) (snd ir) ''Domain'')))) (fst ir))
          (zip (index papers) (rows papers))) = [0, 0, 1]"
    by (simp add: papers_def cell_at_def default_sep_def)
  with order_preserved [OF v, of literal_split default_sep True] s show ?thesis
    by auto
qed

theorem row_labels_not_sorted:
  "\<not> isl (fst (split_column_with_multiple_entries literal_split resorted ''Domain'' (Name ''Citation'')
       default_sep True)) \<and>
   paper_nbs (projr (fst (split_column_with_multiple_entries literal_split resorted ''Domain''
       (Name ''Citation'') default_sep True))) = [1, 0] \<and>
   \<not> sorted (paper_nbs (projr (fst (split_column_with_multiple_entries literal_split resorted ''Domain''
       (Name ''Citation'') default_sep True))))"
proof -
  have v: "valid_call resorted ''Domain'' (ref_list (Name ''Citation''))"
    by (simp add: resorted_valid)
  have "expanded literal_split resorted ''Domain'' [''Citation''] default_sep True =
      [[Num 1, Str ''B2'', Str ''epilepsy''], [Num 0, Str ''A1'', Str ''sleep'']]"
    by code_simp
  then show ?thesis
    by (simp add: split_column_valid [OF v] paper_nbs_def)
qed


text \<open>
  C4. On every valid call, every output row stems from an input row: it carries that row's
  label and, as identifier values, that row's cells under the identifier columns,
  unchanged. When the row labels of the input are distinct, the label of an output row
  determines the input row, and the identifier values are the ones of the row it names.
\<close>

theorem identifier_fidelity:
  assumes "valid_call df col (ref_list ref_col)"
  shows "\<exists>out. fst (split_column_with_multiple_entries str_split df col ref_col sep lower) = Inr out \<and>
     (\<forall>orow \<in> set (rows out). \<exists>j < length (rows df).
         hd orow = Num (index df ! j) \<and>
         identifiers (ref_list ref_col) orow = map (cell_at (columns df) (rows df ! j)) (ref_list ref_col)) \<and>
     (distinct (index df) \<longrightarrow>
        (\<forall>orow \<in> set (rows out). \<forall>j < length (rows df).
           hd orow = Num (index df ! j) \<longrightarrow>
           identifiers (ref_list ref_col) orow = map (cell_at (columns df) (rows df ! j)) (ref_list ref_col)))"
proof -
  let ?refs = "ref_list ref_col"
  let ?E = "expanded str_split df col ?refs sep lower"
  from assms have len: "length (rows df) = length (index df)"
    by (simp add: valid_call_def wf_frame_def)
  have a: "\<forall>orow \<in> set ?E. \<exists>j < length (rows df). hd orow = Num (index df ! j) \<and>
         identifiers ?refs orow = map (cell_at (columns df) (rows df ! j)) ?refs"
    using expanded_row_origin [of _ str_split df col ?refs sep lower] by blast
  have b: "identifiers ?refs orow = map (cell_at (columns df) (rows df ! j)) ?refs"
    if d: "distinct (index df)" and o: "orow \<in> set ?E" and j: "j < length (rows df)"
      and h: "hd orow = Num (index df ! j)" for orow j
  proof -
    from expanded_row_origin [OF o] obtain j' where j': "j' < length (rows df)"
        "hd orow = Num (index df ! j')"
        "identifiers ?refs orow = map (cell_at (columns df) (rows df ! j')) ?refs"
      by blast
    from h j'(2) have "index df ! j = index df ! j'" by simp
    with d j j'(1) len have "j = j'" by (simp add: nth_eq_iff_index_eq)
    with j'(3) show ?thesis by simp
  qed
  from a b show ?thesis
    by (simp add: split_column_valid [OF assms])
qed

theorem identifier_fidelity_witness:
  "\<exists>out. fst (split_column_with_multiple_entries literal_split papers ''Domain'' (Name ''Citation'')
       default_sep True) = Inr out \<and>
     map hd (rows out) = [Num 0, Num 0, Num 1] \<and>
     map (identifiers [''Citation'']) (rows out) = [[Str ''A1''], [Str ''A1''], [Str ''B2'']] \<and>
     distinct (index papers)"
proof -
  have v: "valid_call papers ''Domain'' (ref_list (Name ''Citation''))"
    by (simp add: papers_valid)
  have "distinct (index papers)"
    by (simp add: papers_def)
  with identifier_fidelity [OF v, of literal_split default_sep True] show ?thesis
    by (simp add: split_column_valid [OF v] papers_expanded identifiers_def)
qed

text \<open>
  C5. On every valid call the values emitted are, in order, the substrings of the target
  cells with leading whitespace removed, and lowercased exactly when \<open>lower\<close> is set.
  Removing leading whitespace takes away a longest prefix of whitespace characters: what
  is left is a suffix of the substring and does not start with whitespace.
\<close>

theorem values_stripped_and_lowered:
  assumes "valid_call df col (ref_list ref_col)"
  shows "\<exists>out. fst (split_column_with_multiple_entries str_split df col ref_col sep lower) = Inr out \<and>
     values_of out =
       concat (map (\<lambda>r. map (\<lambda>p. Str (if lower then py_lower (py_lstrip p) else py_lstrip p))
                            (str_split sep (the_Str (cell_at (columns df) r col))))
                   (rows df)) \<and>
     (\<forall>p. takeWhile isspace p @ py_lstrip p = p \<and> list_all isspace (takeWhile isspace p) \<and>
          (py_lstrip p \<noteq> [] \<longrightarrow> \<not> isspace (hd (py_lstrip p))))"
proof -
  from assms have "length (index df) = length (rows df)"
    by (simp add: valid_call_def wf_frame_def)
  then show ?thesis
    by (simp add: split_column_valid [OF assms] values_of_def values_expanded pieces_def
        processed_def py_lstrip_suffix py_lstrip_spaces py_lstrip_head)
qed

theorem values_stripped_and_lowered_witness:
  "(\<exists>out. fst (split_column_with_multiple_entries literal_split papers ''Domain'' (Name ''Citation'')
       default_sep True) = Inr out \<and>
     values_of out = [Str ''sleep'', Str ''bci'', Str ''epilepsy'']) \<and>
   (\<exists>out. fst (split_column_with_multiple_entries literal_split papers ''Domain'' (Name ''Citation'')
       default_sep False) = Inr out \<and>
     values_of out = [Str ''Sleep'', Str ''BCI'', Str ''Epilepsy''])"
proof -
  have v: "valid_call papers ''Domain'' (ref_list (Name ''Citation''))"
    by (simp add: papers_valid)
  from values_stripped_and_lowered [OF v, of literal_split default_sep True]
    values_stripped_and_lowered [OF v, of literal_split default_sep False]
  show ?thesis
    by (simp add: split_column_valid [OF v] papers_expanded papers_expanded_as_is values_of_def)
qed











lemma overwrite_idem:
  "map (\<lambda>(l, x). if l = key then v else x)
     (zip ls (map (\<lambda>(l, x). if l = key then v else x) (zip ls r))) =
   map (\<lambda>(l, x). if l = key then v else x) (zip ls r)"
  by (induction ls r rule: list_induct2') auto

lemma overwrite_absent:
  "key \<notin> set ls \<Longrightarrow> length r = length ls \<Longrightarrow>
     map (\<lambda>(l, x). if l = key then v else x) (zip ls r) = r"
  by (induction ls r rule: list_induct2') auto

lemma set_cell_idem:
  assumes "length r = length ls"
  shows "set_cell key (add_label key ls) (set_cell key ls r v) v = set_cell key ls r v"
proof (cases "key \<in> set ls")
  case True
  then show ?thesis
    by (simp add: set_cell_def add_label_def overwrite_idem)
next
  case False
  with assms show ?thesis
    by (simp add: set_cell_def add_label_def overwrite_absent)
qed

lemma add_label_idem: "add_label key (add_label key ls) = add_label key ls"
  by (simp add: add_label_def)

lemma rerun_frame:
  fixes str_split :: "string \<Rightarrow> string \<Rightarrow> string list" and sep :: string and lower :: bool
  assumes v: "valid_call df col refs" and c: "col \<noteq> ''temp''"
  defines "df1 \<equiv> setitem df ''temp'' (temp_cells str_split df col sep lower)"
  shows "valid_call df1 col refs"
    and "expanded str_split df1 col refs sep lower = expanded str_split df col refs sep lower"
    and "setitem df1 ''temp'' (temp_cells str_split df1 col sep lower) = df1"
proof -
  define g where "g = (\<lambda>r. StrList (map (processed lower) (pieces str_split df col sep r)))"
  define w where "w = (\<lambda>r. set_cell ''temp'' (columns df) r (g r))"
  from v have d: "distinct (columns df)"
    and li: "length (rows df) = length (index df)"
    and len: "\<And>r. r \<in> set (rows df) \<Longrightarrow> length r = length (columns df)"
    and cin: "col \<in> set (columns df)"
    and istr: "\<And>r. r \<in> set (rows df) \<Longrightarrow> is_Str (cell_at (columns df) r col)"
    and rs: "set refs \<subseteq> set (columns df)" and dr: "distinct refs" and nt: "''temp'' \<notin> set refs"
    by (auto simp: valid_call_def wf_frame_def list_all_iff)
  have df1: "df1 = df\<lparr>columns := add_label ''temp'' (columns df), rows := map w (rows df)\<rparr>"
    unfolding df1_def temp_cells_def w_def g_def by (rule setitem_map)
  have cell: "cell_at (columns df1) (w r) k = cell_at (columns df) r k"
    if "r \<in> set (rows df)" "k \<noteq> ''temp''" for r k
    using that len by (simp add: df1 w_def cell_at_set_cell_other)
  have pc: "pieces str_split df1 col sep (w r) = pieces str_split df col sep r"
    if "r \<in> set (rows df)" for r
    using that c by (simp add: pieces_def cell)
  show "valid_call df1 col refs"
    unfolding valid_call_def wf_frame_def
    using d li len cin istr rs dr nt c
    by (auto simp: df1 distinct_add_label set_add_label list_all_iff w_def length_set_cell
        cell_at_set_cell_other)
  have er: "expand_row str_split df1 col refs sep lower (fst ir, w (snd ir)) =
        expand_row str_split df col refs sep lower ir"
    if "ir \<in> set (zip (index df) (rows df))" for ir
  proof -
    from that have r: "snd ir \<in> set (rows df)"
      by (metis in_set_zipE prod.collapse)
    have "cell_at (columns df1) (w (snd ir)) k = cell_at (columns df) (snd ir) k"
      if "k \<in> set refs" for k
      using that nt by (intro cell r) auto
    then have "map (cell_at (columns df1) (w (snd ir))) refs = map (cell_at (columns df) (snd ir)) refs"
      by simp
    with r show ?thesis
      by (simp add: expand_row_def pc)
  qed
  have ri: "rows df1 = map w (rows df)" "index df1 = index df"
    by (simp_all add: df1)
  have "map (expand_row str_split df1 col refs sep lower) (zip (index df1) (rows df1)) =
      map (\<lambda>ir. expand_row str_split df1 col refs sep lower (fst ir, w (snd ir))) (zip (index df) (rows df))"
    by (simp add: ri zip_map_right comp_def)
  also have "\<dots> = map (expand_row str_split df col refs sep lower) (zip (index df) (rows df))"
    by (rule map_cong) (simp_all add: er)
  finally show "expanded str_split df1 col refs sep lower = expanded str_split df col refs sep lower"
    by (simp add: expanded_def)
  have "setitem df1 ''temp'' (temp_cells str_split df1 col sep lower) =
      df1\<lparr>columns := add_label ''temp'' (columns df1),
          rows := map (\<lambda>r. set_cell ''temp'' (columns df1) r
                     (StrList (map (processed lower) (pieces str_split df1 col sep r)))) (rows df1)\<rparr>"
    unfolding temp_cells_def by (rule setitem_map)
  moreover have "add_label ''temp'' (columns df1) = columns df1"
    by (simp add: df1 add_label_idem)
  moreover have "map (\<lambda>r. set_cell ''temp'' (columns df1) r
                     (StrList (map (processed lower) (pieces str_split df1 col sep r)))) (rows df1) = rows df1"
  proof -
    have "set_cell ''temp'' (columns df1) (w r)
            (StrList (map (processed lower) (pieces str_split df1 col sep (w r)))) = w r"
      if "r \<in> set (rows df)" for r
    proof -
      have "set_cell ''temp'' (add_label ''temp'' (columns df)) (set_cell ''temp'' (columns df) r (g r)) (g r)
          = set_cell ''temp'' (columns df) r (g r)"
        using len [OF that] by (rule set_cell_idem)
      moreover have "columns df1 = add_label ''temp'' (columns df)"
        by (simp add: df1)
      ultimately show ?thesis
        unfolding pc [OF that] by (simp add: w_def g_def)
    qed
    then show ?thesis
      by (simp add: ri comp_def cong: map_cong)
  qed
  ultimately show "setitem df1 ''temp'' (temp_cells str_split df1 col sep lower) = df1"
    by simp
qed

text \<open>
  C8. The result of a call is a function of the table contents, the target column, the
  identifier columns, the separator and the flag: nothing else enters it, so two calls on
  equal inputs return equal tables, rows in the same order. The one thing a call leaves
  behind is the column \<^verbatim>\<open>'temp'\<close> in the caller's frame, and it does not reach the
  result either: a second call on the very frame the first call has left returns the same
  table, and leaves the frame as it found it (when the target column is not the scratch
  column itself, which the first call overwrites with lists).
\<close>

theorem rerun_same_output:
  assumes "valid_call df col (ref_list ref_col)" and "col \<noteq> ''temp''"
  shows "split_column_with_multiple_entries str_split
           (snd (split_column_with_multiple_entries str_split df col ref_col sep lower))
           col ref_col sep lower =
         split_column_with_multiple_entries str_split df col ref_col sep lower"
proof -
  let ?df1 = "setitem df ''temp'' (temp_cells str_split df col sep lower)"
  note r = rerun_frame [OF assms, of str_split sep lower]
  have "split_column_with_multiple_entries str_split ?df1 col ref_col sep lower =
      split_column_with_multiple_entries str_split df col ref_col sep lower"
    by (simp add: split_column_valid [OF assms(1)] split_column_valid [OF r(1)] r(2) r(3))
  then show ?thesis
    by (simp add: split_column_valid [OF assms(1)])
qed

theorem rerun_same_output_witness:
  "split_column_with_multiple_entries literal_split
     (snd (split_column_with_multiple_entries literal_split papers ''Domain'' (Name ''Citation'')
        default_sep True))
     ''Domain'' (Name ''Citation'') default_sep True =
   split_column_with_multiple_entries literal_split papers ''Domain'' (Name ''Citation'') default_sep True"
proof -
  have v: "valid_call papers ''Domain'' (ref_list (Name ''Citation''))"
    by (simp add: papers_valid)
  show ?thesis
    by (rule rerun_same_output [OF v]) simp
qed

lemma literal_split_not_Nil [simp]: "literal_split sep s \<noteq> []"
  by (induction sep s rule: literal_split.induct) (auto split: list.splits)

lemma literal_split_leading:
  "sep \<noteq> [] \<Longrightarrow> literal_split sep (sep @ b) = [] # literal_split sep b"
  by (cases sep) simp_all

lemma literal_split_no_match:
  "\<not> prefix sep (c # cs) \<Longrightarrow>
     literal_split sep (c # cs) = (c # hd (literal_split sep cs)) # tl (literal_split sep cs)"
  by (cases "literal_split sep cs") simp_all

lemma not_bordered:
  "\<not> bordered sep \<Longrightarrow> 0 < k \<Longrightarrow> k < length sep \<Longrightarrow> take k sep \<noteq> drop (length sep - k) sep"
  by (auto simp: bordered_def list_ex_iff)

lemma no_match_extends:
  assumes nb: "\<not> bordered sep" and a: "a \<noteq> []" and np: "\<not> prefix sep a"
  shows "\<not> prefix sep (a @ sep @ b)"
proof
  assume "prefix sep (a @ sep @ b)"
  then have "prefix sep a \<or> (\<exists>us. sep = a @ us \<and> prefix us (sep @ b))"
    by (simp only: prefix_append)
  with np obtain us where us: "sep = a @ us" "prefix us (sep @ b)"
    by blast
  have "length sep = length a + length us"
    by (subst us(1)) simp
  with a have l: "length us < length sep" "length sep - length us = length a"
    by simp_all
  from us(2) have "prefix us sep \<or> (\<exists>vs. us = sep @ vs \<and> prefix vs b)"
    by (simp only: prefix_append)
  moreover have "us \<noteq> sep @ vs" for vs
  proof
    assume "us = sep @ vs"
    then have "length us = length sep + length vs" by simp
    with l(1) show False by simp
  qed
  ultimately have "prefix us sep" by blast
  then obtain zs where zs: "sep = us @ zs"
    by (auto simp: prefix_def)
  have "take (length us) sep = us"
    by (subst zs) simp
  moreover have "drop (length a) sep = us"
    by (subst us(1)) simp
  moreover have "us \<noteq> []"
  proof
    assume "us = []"
    with us(1) have "sep = a" by simp
    with np show False by simp
  qed
  ultimately show False
    using not_bordered [OF nb, of "length us"] l by simp
qed

lemma literal_split_append:
  assumes nb: "\<not> bordered sep" and ne: "sep \<noteq> []"
  shows "literal_split sep (a @ sep @ b) = literal_split sep a @ literal_split sep b"
  using assms
proof (induction sep a rule: literal_split.induct)
  case (1 sep)
  then show ?case by (simp add: literal_split_leading)
next
  case (2 sep c cs)
  show ?case
  proof (cases "prefix sep (c # cs)")
    case True
    then obtain r where r: "c # cs = sep @ r"
      by (auto simp: prefix_def)
    then have dr: "drop (length sep) (c # cs) = r" by simp
    from 2(1) [OF conjI [OF "2.prems"(2) True] "2.prems"] dr
    have ih: "literal_split sep (r @ sep @ b) = literal_split sep r @ literal_split sep b"
      by simp
    have "literal_split sep ((c # cs) @ sep @ b) = literal_split sep (sep @ (r @ sep @ b))"
      by (simp add: r)
    also have "\<dots> = [] # literal_split sep (r @ sep @ b)"
      using "2.prems"(2) by (rule literal_split_leading)
    also have "\<dots> = ([] # literal_split sep r) @ literal_split sep b"
      by (simp add: ih)
    also have "[] # literal_split sep r = literal_split sep (c # cs)"
      unfolding r using "2.prems"(2) by (rule literal_split_leading [symmetric])
    finally show ?thesis .
  next
    case False
    then have f: "\<not> (sep \<noteq> [] \<and> prefix sep (c # cs))" by simp
    have ih: "literal_split sep (cs @ sep @ b) = literal_split sep cs @ literal_split sep b"
      using 2(2) [OF f "2.prems"] .
    have "\<not> prefix sep ((c # cs) @ sep @ b)"
      using "2.prems"(1) _ False by (rule no_match_extends) simp
    then have "\<not> prefix sep (c # (cs @ sep @ b))" by simp
    then have "literal_split sep (c # (cs @ sep @ b)) =
        (c # hd (literal_split sep (cs @ sep @ b))) # tl (literal_split sep (cs @ sep @ b))"
      by (rule literal_split_no_match)
    also have "\<dots> = ((c # hd (literal_split sep cs)) # tl (literal_split sep cs)) @ literal_split sep b"
      by (simp add: ih)
    also have "(c # hd (literal_split sep cs)) # tl (literal_split sep cs) = literal_split sep (c # cs)"
      using False by (rule literal_split_no_match [symmetric])
    finally show ?thesis by simp
  qed
qed

lemma literal_split_trailing:
  "\<not> bordered sep \<Longrightarrow> sep \<noteq> [] \<Longrightarrow> literal_split sep (a @ sep) = literal_split sep a @ [[]]"
  using literal_split_append [of sep a "[]"] by simp

lemma literal_split_adjacent:
  "\<not> bordered sep \<Longrightarrow> sep \<noteq> [] \<Longrightarrow>
     literal_split sep (a @ sep @ sep @ b) = literal_split sep a @ [] # literal_split sep b"
  by (simp add: literal_split_append literal_split_leading)

lemma concat_map_nth:
  "j < length zs \<Longrightarrow>
     concat (map f zs) = concat (map f (take j zs)) @ f (zs ! j) @ concat (map f (drop (Suc j) zs))"
  by (subst id_take_nth_drop [of j zs]) simp_all

lemma processed_empty [simp]: "processed lower [] = []"
  by (simp add: processed_def py_lstrip_def py_lower_def)

lemma default_sep_plain: "\<not> bordered default_sep" "default_sep \<noteq> []"
  by (simp_all add: bordered_def default_sep_def)

lemma default_sep_literal: "literal_sep default_sep"
  by (simp add: literal_sep_def default_sep_def regex_special_def)

lemma overlapping_separator:
  "bordered ''aa''" "suffix ''aa'' ''baaa''" "literal_split ''aa'' ''baaa'' = [''b'', ''a'']"
  by (simp_all add: bordered_def suffix_def)

lemma ragged_valid: "valid_call ragged ''Domain'' [''Citation'']"
  by (simp add: valid_call_def wf_frame_def ragged_def cell_at_def default_sep_def)

lemma ragged_expanded:
  "expanded literal_split ragged ''Domain'' [''Citation''] default_sep True =
     [[Num 0, Str ''A1'', Str []], [Num 0, Str ''A1'', Str ''x''], [Num 0, Str ''A1'', Str []],
      [Num 0, Str ''A1'', Str ''y''], [Num 0, Str ''A1'', Str []]]"
  by code_simp

section \<open>The claim about empty substrings\<close>

text \<open>
  C7. Whatever the splitting routine and the separator, the rows emitted for an input row
  are one per substring that the split of its target cell gives, in split order, in one
  block of the output, none dropped or filtered: every empty substring of the split is
  emitted as a row whose value is the empty string. The theorem adds when such substrings
  arise, for a literal separator, which pandas splits at as \<open>literal_split\<close> does. A
  cell that starts with the separator gives an empty first substring, hence a first row
  with the empty string. A cell that ends with the separator, or holds two separators in
  a row, gives an empty substring when the separator has no border (as \<^verbatim>\<open>';\n'\<close> and
  every single character): the scan from the left then meets every occurrence of the
  separator. Two occurrences of a separator with a border can overlap, and the scan takes
  the left one: \<^verbatim>\<open>'baaa'\<close> split on \<^verbatim>\<open>'aa'\<close> is \<^verbatim>\<open>'b'\<close>, \<^verbatim>\<open>'a'\<close>, and no
  empty substring results.
\<close>

theorem empty_substrings_emitted:
  assumes v: "valid_call df col (ref_list ref_col)" and j: "j < length (rows df)"
  shows "let s = the_Str (cell_at (columns df) (rows df ! j) col);
             ps = str_split sep s;
             row = (\<lambda>v. Num (index df ! j) # map (cell_at (columns df) (rows df ! j)) (ref_list ref_col) @ [Str v]);
             emitted = map (\<lambda>p. row (processed lower p)) ps
         in \<exists>out before after.
              fst (split_column_with_multiple_entries str_split df col ref_col sep lower) = Inr out \<and>
              rows out = before @ emitted @ after \<and>
              length emitted = length ps \<and>
              (\<forall>k < length ps. emitted ! k = row (processed lower (ps ! k))) \<and>
              (\<forall>k < length ps. ps ! k = [] \<longrightarrow> emitted ! k = row []) \<and>
              (literal_sep sep \<and> ps = literal_split sep s \<longrightarrow>
                 (prefix sep s \<longrightarrow> hd emitted = row []) \<and>
                 (\<not> bordered sep \<and> suffix sep s \<longrightarrow> last emitted = row []) \<and>
                 (\<not> bordered sep \<and> (\<exists>a b. s = a @ sep @ sep @ b) \<longrightarrow> row [] \<in> set emitted))"
proof -
  define s where "s = the_Str (cell_at (columns df) (rows df ! j) col)"
  define ps where "ps = str_split sep s"
  define row where "row = (\<lambda>v. Num (index df ! j) # map (cell_at (columns df) (rows df ! j)) (ref_list ref_col) @ [Str v])"
  define emitted where "emitted = map (\<lambda>p. row (processed lower p)) ps"
  let ?zs = "zip (index df) (rows df)"
  let ?er = "expand_row str_split df col (ref_list ref_col) sep lower"
  from v have "length (rows df) = length (index df)"
    by (simp add: valid_call_def wf_frame_def)
  with j have jz: "j < length ?zs" and zj: "?zs ! j = (index df ! j, rows df ! j)"
    by simp_all
  have "?er (?zs ! j) = emitted"
    by (simp add: zj expand_row_def pieces_def emitted_def row_def ps_def s_def)
  with concat_map_nth [OF jz, of ?er]
  have r: "expanded str_split df col (ref_list ref_col) sep lower =
      concat (map ?er (take j ?zs)) @ emitted @ concat (map ?er (drop (Suc j) ?zs))"
    by (simp add: expanded_def)
  have l: "length emitted = length ps"
    by (simp add: emitted_def)
  have a: "\<forall>k < length ps. emitted ! k = row (processed lower (ps ! k))"
    by (simp add: emitted_def)
  have a': "\<forall>k < length ps. ps ! k = [] \<longrightarrow> emitted ! k = row []"
    by (simp add: emitted_def)
  have g: "(prefix sep s \<longrightarrow> hd emitted = row []) \<and>
      (\<not> bordered sep \<and> suffix sep s \<longrightarrow> last emitted = row []) \<and>
      (\<not> bordered sep \<and> (\<exists>a b. s = a @ sep @ sep @ b) \<longrightarrow> row [] \<in> set emitted)"
    if lit: "literal_sep sep \<and> ps = literal_split sep s"
  proof -
    from lit have ne: "sep \<noteq> []" and pl: "ps = literal_split sep s"
      by (auto simp: literal_sep_def)
    have nn: "ps \<noteq> []"
      by (simp add: pl)
    have b: "hd emitted = row []" if "prefix sep s"
    proof -
      from that obtain t where "s = sep @ t" by (auto simp: prefix_def)
      then have "hd ps = []"
        by (simp add: pl literal_split_leading [OF ne])
      with nn show ?thesis by (simp add: emitted_def hd_map)
    qed
    have c: "last emitted = row []" if "\<not> bordered sep" "suffix sep s"
    proof -
      from that(2) obtain t where "s = t @ sep" by (auto simp: suffix_def)
      then have "last ps = []"
        by (simp add: pl literal_split_trailing [OF that(1) ne])
      with nn show ?thesis by (simp add: emitted_def last_map)
    qed
    have d: "row [] \<in> set emitted" if "\<not> bordered sep" "\<exists>a b. s = a @ sep @ sep @ b"
    proof -
      from that(2) obtain t u where "s = t @ sep @ sep @ u" by blast
      then have "[] \<in> set ps"
        by (simp add: pl literal_split_adjacent [OF that(1) ne])
      then have "row (processed lower []) \<in> set emitted"
        unfolding emitted_def set_map by (rule imageI)
      then show ?thesis by simp
    qed
    from b c d show ?thesis by blast
  qed
  have o: "fst (split_column_with_multiple_entries str_split df col ref_col sep lower) =
      Inr \<lparr>index = map int [0..<length (expanded str_split df col (ref_list ref_col) sep lower)],
           columns = ''paper nb'' # ref_list ref_col @ [col],
           rows = expanded str_split df col (ref_list ref_col) sep lower\<rparr>"
    by (simp add: split_column_valid [OF v])
  have "\<exists>out before after.
      fst (split_column_with_multiple_entries str_split df col ref_col sep lower) = Inr out \<and>
      rows out = before @ emitted @ after \<and>
      length emitted = length ps \<and>
      (\<forall>k < length ps. emitted ! k = row (processed lower (ps ! k))) \<and>
      (\<forall>k < length ps. ps ! k = [] \<longrightarrow> emitted ! k = row []) \<and>
      (literal_sep sep \<and> ps = literal_split sep s \<longrightarrow>
         (prefix sep s \<longrightarrow> hd emitted = row []) \<and>
         (\<not> bordered sep \<and> suffix sep s \<longrightarrow> last emitted = row []) \<and>
         (\<not> bordered sep \<and> (\<exists>a b. s = a @ sep @ sep @ b) \<longrightarrow> row [] \<in> set emitted))"
  proof (intro exI conjI)
    show "fst (split_column_with_multiple_entries str_split df col ref_col sep lower) =
      Inr \<lparr>index = map int [0..<length (expanded str_split df col (ref_list ref_col) sep lower)],
           columns = ''paper nb'' # ref_list ref_col @ [col],
           rows = expanded str_split df col (ref_list ref_col) sep lower\<rparr>"
      by (rule o)
    show "rows \<lparr>index = map int [0..<length (expanded str_split df col (ref_list ref_col) sep lower)],
           columns = ''paper nb'' # ref_list ref_col @ [col],
           rows = expanded str_split df col (ref_list ref_col) sep lower\<rparr> =
        concat (map ?er (take j ?zs)) @ emitted @ concat (map ?er (drop (Suc j) ?zs))"
      by (simp add: r)
    show "length emitted = length ps" by (rule l)
    show "\<forall>k < length ps. emitted ! k = row (processed lower (ps ! k))" by (rule a)
    show "\<forall>k < length ps. ps ! k = [] \<longrightarrow> emitted ! k = row []" by (rule a')
    show "literal_sep sep \<and> ps = literal_split sep s \<longrightarrow>
         (prefix sep s \<longrightarrow> hd emitted = row []) \<and>
         (\<not> bordered sep \<and> suffix sep s \<longrightarrow> last emitted = row []) \<and>
         (\<not> bordered sep \<and> (\<exists>a b. s = a @ sep @ sep @ b) \<longrightarrow> row [] \<in> set emitted)"
      using g by blast
  qed
  then show ?thesis
    unfolding Let_def s_def [symmetric] ps_def [symmetric] row_def [symmetric] emitted_def [symmetric] .
qed

theorem empty_substrings_emitted_witness:
  "(\<exists>out. fst (split_column_with_multiple_entries literal_split ragged ''Domain'' (Name ''Citation'')
       default_sep True) = Inr out \<and>
     values_of out = [Str [], Str ''x'', Str [], Str ''y'', Str []]) \<and>
   literal_sep default_sep \<and> \<not> bordered default_sep"
proof -
  have v: "valid_call ragged ''Domain'' (ref_list (Name ''Citation''))"
    by (simp add: ragged_valid)
  have j: "0 < length (rows ragged)"
    by (simp add: ragged_def)
  from empty_substrings_emitted [OF v j, of literal_split default_sep True]
  obtain out where o: "fst (split_column_with_multiple_entries literal_split ragged ''Domain''
      (Name ''Citation'') default_sep True) = Inr out"
    unfolding Let_def by blast
  then have "rows out = expanded literal_split ragged ''Domain'' [''Citation''] default_sep True"
    by (auto simp: split_column_valid [OF v])
  with o show ?thesis
    by (auto simp: values_of_def ragged_expanded default_sep_plain default_sep_literal)
qed

lemma collect_map:
  "(\<And>x. x \<in> set xs \<Longrightarrow> f (h x) = Inr (g x)) \<Longrightarrow> collect f (map h xs) = Inr (map g xs)"
  by (induction xs) simp_all

lemma main_domain_of_four:
  assumes "\<not> is_StrList d1" "\<not> is_StrList d2" "\<not> is_StrList d3" "\<not> is_StrList d4"
  shows "main_domain_of [d1, d2, d3, d4] = Inr (first_main_domain d1 d2 d3 d4)"
  using assms by (simp add: main_domain_of_def first_main_domain_def)

lemma surveyed_valid: "valid_domains surveyed"
  by (simp add: valid_domains_def wf_frame_def surveyed_def domain_columns_def cell_at_def)

section \<open>The claim about the main domains\<close>

text \<open>
  C10. On every frame that has the four domain columns (and no list in them),
  \<^verbatim>\<open>extract_main_domains\<close> returns the frame with a column \<^verbatim>\<open>'Main domain'\<close> that
  holds, for every row, the first of the cells \<^verbatim>\<open>'Domain 1'\<close>, \<^verbatim>\<open>'Domain 2'\<close>,
  \<^verbatim>\<open>'Domain 3'\<close>, \<^verbatim>\<open>'Domain 4'\<close>, in that order, that is one of the seven main
  domains, and \<^verbatim>\<open>'Others'\<close> when none of the four is.
\<close>

theorem main_domain_first_match:
  assumes "valid_domains df"
  shows "\<exists>df'. extract_main_domains df = Inr df' \<and>
     index df' = index df \<and> length (rows df') = length (rows df) \<and>
     (\<forall>j < length (rows df).
        cell_at (columns df') (rows df' ! j) ''Main domain'' =
          first_main_domain (cell_at (columns df) (rows df ! j) ''Domain 1'')
                            (cell_at (columns df) (rows df ! j) ''Domain 2'')
                            (cell_at (columns df) (rows df ! j) ''Domain 3'')
                            (cell_at (columns df) (rows df ! j) ''Domain 4''))"
proof -
  define g where "g = (\<lambda>r. first_main_domain (cell_at (columns df) r ''Domain 1'')
      (cell_at (columns df) r ''Domain 2'') (cell_at (columns df) r ''Domain 3'')
      (cell_at (columns df) r ''Domain 4''))"
  from assms have d: "distinct (columns df)"
    and len: "\<And>r. r \<in> set (rows df) \<Longrightarrow> length r = length (columns df)"
    and ks: "set domain_columns \<subseteq> set (columns df)"
    and nl: "\<And>r k. r \<in> set (rows df) \<Longrightarrow> k \<in> set domain_columns \<Longrightarrow>
               \<not> is_StrList (cell_at (columns df) r k)"
    by (auto simp: valid_domains_def wf_frame_def list_all_iff)
  have sub: "getitems df domain_columns =
      Inr \<lparr>index = index df,
           columns = concat (map (\<lambda>k. filter (\<lambda>l. l = k) (columns df)) domain_columns),
           rows = map (\<lambda>r. map (cell_at (columns df) r) domain_columns) (rows df)\<rparr>"
    using ks d len by (auto simp: getitems_def concat_select_once)
  have md: "main_domain_of (map (cell_at (columns df) r) domain_columns) = Inr (g r)"
    if "r \<in> set (rows df)" for r
  proof -
    have "\<not> is_StrList (cell_at (columns df) r ''Domain 1'')"
      "\<not> is_StrList (cell_at (columns df) r ''Domain 2'')"
      "\<not> is_StrList (cell_at (columns df) r ''Domain 3'')"
      "\<not> is_StrList (cell_at (columns df) r ''Domain 4'')"
      using nl [OF that] by (simp_all add: domain_columns_def)
    then show ?thesis
      unfolding g_def by (simp add: domain_columns_def main_domain_of_four)
  qed
  have col: "collect main_domain_of (map (\<lambda>r. map (cell_at (columns df) r) domain_columns) (rows df)) =
      Inr (map g (rows df))"
    by (rule collect_map) (rule md)
  have res: "extract_main_domains df = Inr (setitem df ''Main domain'' (map g (rows df)))"
    by (simp add: extract_main_domains_def sub col)
  have "cell_at (columns (setitem df ''Main domain'' (map g (rows df))))
          (rows (setitem df ''Main domain'' (map g (rows df))) ! j) ''Main domain'' = g (rows df ! j)"
    if "j < length (rows df)" for j
    using that d len by (simp add: setitem_map cell_at_set_cell)
  then show ?thesis
    unfolding res g_def by (simp add: setitem_map)
qed

theorem main_domain_first_match_witness:
  "\<exists>df'. extract_main_domains surveyed = Inr df' \<and>
     map (\<lambda>r. cell_at (columns df') r ''Main domain'') (rows df') =
       [Str ''Sleep'', Str ''BCI'', Str ''Others'']"
proof -
  have "extract_main_domains surveyed =
      Inr \<lparr>index = [0, 1, 2],
           columns = [''Citation'', ''Domain 1'', ''Domain 2'', ''Domain 3'', ''Domain 4'', ''Main domain''],
           rows = [[Str ''A1'', Str ''Sleep'', Str ''Staging'', NaN, NaN, Str ''Sleep''],
                   [Str ''B2'', Str ''Clinical'', Str ''BCI'', Str ''Epilepsy'', NaN, Str ''BCI''],
                   [Str ''C3'', Str ''Clinical'', NaN, NaN, NaN, Str ''Others'']]\<rparr>"
    by code_simp
  with main_domain_first_match [OF surveyed_valid] show ?thesis
    by (simp add: cell_at_def)
qed

end
